theory Spec2Isabelle
  imports Main
begin

text \<open>
  A model of the stream supervisor of \<open>server/index.js\<close>: the probe \<open>checkFFmpeg\<close>, the
  shared object \<open>streamState\<close>, the functions \<open>startRTSPStream\<close> and \<open>stopRTSPStream\<close>, and
  the three routes under \<open>/api/stream\<close>. The file holds two versions of the server one
  after the other; the model follows the first one (lines 1 to 429), the one whose probe
  has the 5000 ms timer.
\<close>

section \<open>The availability probe (\<open>checkFFmpeg\<close>)\<close>

text \<open>
  \<open>checkFFmpeg\<close> spawns \<open>ffmpeg -version\<close>, attaches four handlers and arms a
  5000 ms timer. The promise it returns takes the value of the first \<open>resolve\<close>
  call; later calls change nothing. A run of the child is the list of the events that
  node dispatches to the handlers, each with the time (ms since the spawn) at which
  its handler runs. The timer callback runs before any handler dispatched at 5000 ms or
  later, and at the latest when the list is exhausted.
\<close>

datatype probe_event =
    StdoutData                 \<comment> \<open>\<open>ffmpeg.stdout.on('data')\<close>\<close>
  | StderrData                 \<comment> \<open>\<open>ffmpeg.stderr.on('data')\<close>\<close>
  | ProbeError                 \<comment> \<open>\<open>ffmpeg.on('error')\<close>\<close>
  | ProbeClose "int option"    \<comment> \<open>\<open>ffmpeg.on('close')\<close>; the code is \<open>null\<close> after a signal\<close>

datatype probe_spawn =
    SpawnThrows                             \<comment> \<open>\<open>spawn\<close> raises, caught by the \<open>try\<close>\<close>
  | Spawned "(nat \<times> probe_event) list"

record probe =
  hasOutput :: bool
  resolved :: "bool option"

definition probe_timeout_ms :: nat where
  "probe_timeout_ms = 5000"

definition resolve :: "bool \<Rightarrow> probe \<Rightarrow> probe" where
  "resolve b p = (case resolved p of None \<Rightarrow> p\<lparr>resolved := Some b\<rparr> | Some _ \<Rightarrow> p)"

fun probe_handle :: "probe_event \<Rightarrow> probe \<Rightarrow> probe" where
  "probe_handle StdoutData p = p\<lparr>hasOutput := True\<rparr>"
| "probe_handle StderrData p = p\<lparr>hasOutput := True\<rparr>"
| "probe_handle ProbeError p = resolve False p"
| "probe_handle (ProbeClose code) p = resolve (code = Some 0 \<and> hasOutput p) p"

definition probe_timer :: "probe \<Rightarrow> probe" where
  "probe_timer p = resolve False p"

fun probe_dispatch :: "probe \<Rightarrow> (nat \<times> probe_event) list \<Rightarrow> probe" where
  "probe_dispatch p [] = probe_timer p"
| "probe_dispatch p ((t, e) # evs) =
     (if t < probe_timeout_ms then probe_dispatch (probe_handle e p) evs
      else probe_dispatch (probe_handle e (probe_timer p)) evs)"

definition checkFFmpeg :: "probe_spawn \<Rightarrow> bool option" where
  "checkFFmpeg r =
     (case r of
        SpawnThrows \<Rightarrow> Some False
      | Spawned evs \<Rightarrow> resolved (probe_dispatch \<lparr>hasOutput = False, resolved = None\<rparr> evs))"

fun is_data :: "probe_event \<Rightarrow> bool" where
  "is_data StdoutData = True"
| "is_data StderrData = True"
| "is_data _ = False"

text \<open>
  The contract of the probe in the specification's words, as a function of the run: the
  probe succeeds when the child produces output and then exits with status 0, all before
  the timeout; a spawn error, any other exit, or the timeout coming first makes it fail.
  The flag \<open>h\<close> records that output has been seen.
\<close>

fun probe_spec :: "bool \<Rightarrow> (nat \<times> probe_event) list \<Rightarrow> bool" where
  "probe_spec h [] = False"
| "probe_spec h ((t, e) # evs) =
     (t < probe_timeout_ms \<and>
      (case e of
         StdoutData \<Rightarrow> probe_spec True evs
       | StderrData \<Rightarrow> probe_spec True evs
       | ProbeError \<Rightarrow> False
       | ProbeClose c \<Rightarrow> c = Some 0 \<and> h))"


section \<open>The stream supervisor (\<open>streamState\<close>, \<open>startRTSPStream\<close>, \<open>stopRTSPStream\<close>)\<close>

subsection \<open>State\<close>

text \<open>
  \<open>streamState\<close> is the module-level object of the server. A process handle is the
  index of the child in the list of all children spawned so far. Times are milliseconds.
\<close>

type_synonym pid = nat

record stream_state =
  isRunning :: bool
  rtspUrl :: "string option"
  startTime :: "nat option"
  ffmpegProcess :: "pid option"
  hasFFmpeg :: bool

text \<open>
  The errors a start call can end with, one constructor for each \<open>new Error\<close> or
  \<open>reject\<close> site of \<open>startRTSPStream\<close>:
  \<^item> \<open>NotAvailable\<close>: thrown when \<open>hasFFmpeg\<close> is false;
  \<^item> \<open>SpawnFailed\<close>: the child's \<open>'error'\<close> event, passed on by \<open>reject(error)\<close>;
  \<^item> \<open>ExitCode c\<close>: "FFmpeg process failed with exit code c", from the \<open>'close'\<close> handler;
  \<^item> \<open>StartTimeout\<close>: "FFmpeg failed to start within timeout period", from the timer.
\<close>

datatype start_error = NotAvailable | SpawnFailed | ExitCode int | StartTimeout

datatype outcome = Resolved string | Rejected start_error

text \<open>
  One entry for each \<open>spawn('ffmpeg', ffmpegArgs)\<close> of \<open>startRTSPStream\<close>: the source
  address passed after \<open>-i\<close>, whether \<open>kill('SIGTERM')\<close> was called on the handle, the
  pending \<open>setTimeout\<close> of the call (its due time, \<open>None\<close> once it has run), and the
  state of the promise the call returned (\<open>None\<close> while pending). The field \<open>gone\<close> is
  not read by the server: it records that the process is no more, because it has exited
  (its \<open>'close'\<close> event) or could not be spawned (its \<open>'error'\<close> event).
\<close>

record child =
  source :: string
  sigterm :: bool
  gone :: bool
  timerDue :: "nat option"
  settled :: "outcome option"

text \<open>
  The directory \<open>HLS_DIR\<close>: the names \<open>readdirSync\<close> returns, in its order; whether
  \<open>readdirSync\<close> throws; and the names on which \<open>unlinkSync\<close> throws. A directory
  lists no name twice; the theorems that need it assume \<open>distinct (listing d)\<close>.
\<close>

record hls_dir =
  listing :: "string list"
  unreadable :: bool
  undeletable :: "string list"

datatype fs_error = ReaddirFailed | UnlinkFailed string

record world =
  streamState :: stream_state
  children :: "child list"
  hlsDir :: hls_dir
  cleanupErrors :: "fs_error list"   \<comment> \<open>what \<open>console.error('Error cleaning up HLS files:', error)\<close> printed\<close>

definition initial_state :: stream_state where
  "initial_state =
     \<lparr>isRunning = False, rtspUrl = None, startTime = None, ffmpegProcess = None,
      hasFFmpeg = False\<rparr>"

definition initial_world :: "hls_dir \<Rightarrow> world" where
  "initial_world d =
     \<lparr>streamState = initial_state, children = [], hlsDir = d, cleanupErrors = []\<rparr>"

definition grace_delay_ms :: nat where
  "grace_delay_ms = 3000"

text \<open>\<open>join(HLS_DIR, 'stream.m3u8')\<close>, written relative to the directory of the server.\<close>

definition outputPath :: string where
  "outputPath = ''hls/stream.m3u8''"

subsection \<open>Promises and signals\<close>

definition upd_child :: "pid \<Rightarrow> (child \<Rightarrow> child) \<Rightarrow> world \<Rightarrow> world" where
  "upd_child p f w =
     (if p < length (children w) then w\<lparr>children := (children w)[p := f (children w ! p)]\<rparr>
      else w)"

definition kill :: "pid \<Rightarrow> world \<Rightarrow> world" where
  "kill p w = upd_child p (\<lambda>c. c\<lparr>sigterm := True\<rparr>) w"

text \<open>\<open>resolve\<close> and \<open>reject\<close> of the promise of call \<open>p\<close>: the first one wins.\<close>

definition settle :: "pid \<Rightarrow> outcome \<Rightarrow> world \<Rightarrow> world" where
  "settle p out w =
     upd_child p (\<lambda>c. case settled c of None \<Rightarrow> c\<lparr>settled := Some out\<rparr> | Some _ \<Rightarrow> c) w"

definition outcome_of :: "pid \<Rightarrow> world \<Rightarrow> outcome option" where
  "outcome_of p w = (if p < length (children w) then settled (children w ! p) else None)"

subsection \<open>\<open>startRTSPStream\<close> and the handlers it attaches\<close>

text \<open>
  The call returns \<open>Inl\<close> for the synchronous \<open>throw\<close>, and otherwise \<open>Inr p\<close>: the
  pending promise of the child \<open>p\<close> it spawned. The executor of the promise runs at once,
  so the spawn, the four assignments and \<open>setTimeout(\<dots>, 3000)\<close> are one step.
\<close>

definition startRTSPStream :: "string \<Rightarrow> nat \<Rightarrow> world \<Rightarrow> (start_error + pid) \<times> world" where
  "startRTSPStream url now w =
     (if \<not> hasFFmpeg (streamState w) then (Inl NotAvailable, w)
      else
        let w1 = (case ffmpegProcess (streamState w) of Some old \<Rightarrow> kill old w | None \<Rightarrow> w);
            p = length (children w1);
            ffmpeg = \<lparr>source = url, sigterm = False, gone = False,
                      timerDue = Some (now + grace_delay_ms), settled = None\<rparr>
        in (Inr p,
            w1\<lparr>children := children w1 @ [ffmpeg],
               streamState := (streamState w1)
                 \<lparr>ffmpegProcess := Some p, isRunning := True,
                  rtspUrl := Some url, startTime := Some now\<rparr>\<rparr>))"

text \<open>\<open>ffmpeg.on('error', \<dots>)\<close> of child \<open>p\<close>.\<close>

definition on_error :: "pid \<Rightarrow> world \<Rightarrow> world" where
  "on_error p w =
     settle p (Rejected SpawnFailed)
       (w\<lparr>streamState := (streamState w)\<lparr>isRunning := False, ffmpegProcess := None\<rparr>\<rparr>)"

text \<open>\<open>ffmpeg.on('close', (code) => \<dots>)\<close> of child \<open>p\<close>; \<open>code\<close> is \<open>null\<close> after a signal.\<close>

definition on_close :: "pid \<Rightarrow> int option \<Rightarrow> world \<Rightarrow> world" where
  "on_close p code w =
     (let w1 = w\<lparr>streamState := (streamState w)\<lparr>isRunning := False, ffmpegProcess := None\<rparr>\<rparr>
      in case code of
           None \<Rightarrow> w1
         | Some c \<Rightarrow> if c \<noteq> 0 then settle p (Rejected (ExitCode c)) w1 else w1)"

text \<open>
  The callback of \<open>setTimeout(\<dots>, 3000)\<close> of the call that spawned \<open>p\<close>, at time
  \<open>now\<close>: it runs once, and not before its due time.
\<close>

definition on_timer :: "pid \<Rightarrow> nat \<Rightarrow> world \<Rightarrow> world" where
  "on_timer p now w =
     (if p < length (children w) then
        (case timerDue (children w ! p) of
           None \<Rightarrow> w
         | Some due \<Rightarrow>
             if now < due then w
             else
               let w1 = upd_child p (\<lambda>c. c\<lparr>timerDue := None\<rparr>) w
               in if isRunning (streamState w1) then settle p (Resolved outputPath) w1
                  else settle p (Rejected StartTimeout) w1)
      else w)"

subsection \<open>\<open>stopRTSPStream\<close> and the cleanup of \<open>HLS_DIR\<close>\<close>

definition endsWith :: "string \<Rightarrow> string \<Rightarrow> bool" where
  "endsWith s suf = (length suf \<le> length s \<and> drop (length s - length suf) s = suf)"

definition is_hls_file :: "string \<Rightarrow> bool" where
  "is_hls_file file = (endsWith file ''.m3u8'' \<or> endsWith file ''.ts'')"

text \<open>\<open>fs.unlinkSync\<close>: throws on a name it cannot delete or that is not there.\<close>

definition unlinkSync :: "string \<Rightarrow> hls_dir \<Rightarrow> fs_error + hls_dir" where
  "unlinkSync file d =
     (if file \<in> set (undeletable d) then Inl (UnlinkFailed file)
      else if file \<in> set (listing d) then Inr (d\<lparr>listing := removeAll file (listing d)\<rparr>)
      else Inl (UnlinkFailed file))"

text \<open>
  \<open>files.forEach(file => \<dots>)\<close> over the names read at the start. An exception leaves
  the loop; the deletions made before it stay. The result is the directory and the
  exception, if one was thrown.
\<close>

fun forEach_unlink :: "string list \<Rightarrow> hls_dir \<Rightarrow> hls_dir \<times> fs_error option" where
  "forEach_unlink [] d = (d, None)"
| "forEach_unlink (file # files) d =
     (if is_hls_file file then
        (case unlinkSync file d of
           Inl err \<Rightarrow> (d, Some err)
         | Inr d' \<Rightarrow> forEach_unlink files d')
      else forEach_unlink files d)"

text \<open>The body of the \<open>try\<close> block: \<open>readdirSync\<close>, then the loop.\<close>

definition cleanup :: "hls_dir \<Rightarrow> hls_dir \<times> fs_error option" where
  "cleanup d = (if unreadable d then (d, Some ReaddirFailed) else forEach_unlink (listing d) d)"

definition stopRTSPStream :: "world \<Rightarrow> world" where
  "stopRTSPStream w =
     (let w1 = (case ffmpegProcess (streamState w) of
                  Some p \<Rightarrow> (kill p w)\<lparr>streamState := (streamState w)\<lparr>ffmpegProcess := None\<rparr>\<rparr>
                | None \<Rightarrow> w);
          w2 = w1\<lparr>streamState := (streamState w1)
                 \<lparr>isRunning := False, rtspUrl := None, startTime := None\<rparr>\<rparr>
      in case cleanup (hlsDir w2) of
           (d, None) \<Rightarrow> w2\<lparr>hlsDir := d\<rparr>
         | (d, Some err) \<Rightarrow> w2\<lparr>hlsDir := d, cleanupErrors := cleanupErrors w2 @ [err]\<rparr>)"

subsection \<open>The routes \<open>/api/stream/start\<close>, \<open>/api/stream/stop\<close>, \<open>/api/stream/status\<close>\<close>

text \<open>
  A reply is the HTTP status and the \<open>error\<close> or \<open>message\<close> field of the JSON body. The
  body of a start request carries \<open>rtspUrl\<close> as a string, or not at all (\<open>None\<close>);
  \<open>!rtspUrl\<close> holds for a missing and for an empty string.
\<close>

datatype reply = Reply nat string

datatype start_reply =
    Replied reply     \<comment> \<open>the handler answered before it returned\<close>
  | Awaiting pid      \<comment> \<open>the answer is left to \<open>.then\<close>/\<open>.catch\<close> of the promise of this child\<close>

definition start_request :: "string option \<Rightarrow> nat \<Rightarrow> world \<Rightarrow> start_reply \<times> world" where
  "start_request body_rtspUrl now w =
     (case body_rtspUrl of
        None \<Rightarrow> (Replied (Reply 400 ''RTSP URL is required''), w)
      | Some url \<Rightarrow>
          if url = [] then (Replied (Reply 400 ''RTSP URL is required''), w)
          else if \<not> hasFFmpeg (streamState w) then
            (Replied (Reply 500 ''FFmpeg not available''), w)
          else
            (case startRTSPStream url now w of
               (Inl err, w') \<Rightarrow> (Replied (Reply 500 ''Failed to start RTSP stream''), w')
             | (Inr p, w') \<Rightarrow> (Awaiting p, w')))"

text \<open>\<open>!rtspUrl\<close>, the test the route makes first.\<close>

fun falsy :: "string option \<Rightarrow> bool" where
  "falsy None = True"
| "falsy (Some s) = (s = [])"

text \<open>
  \<open>stopRTSPStream\<close> has no \<open>throw\<close> and catches what the file system throws, so the
  \<open>catch\<close> of the route, with its status 500, is never entered.
\<close>

definition stop_request :: "world \<Rightarrow> reply \<times> world" where
  "stop_request w = (Reply 200 ''RTSP stream stopped'', stopRTSPStream w)"

record status_reply =
  st_isRunning :: bool
  st_hlsAvailable :: bool
  st_hlsUrl :: "string option"
  st_rtspUrl :: "string option"
  st_startTime :: "nat option"
  st_mode :: string
  st_hasFFmpeg :: bool

text \<open>\<open>fs.existsSync(join(HLS_DIR, 'stream.m3u8'))\<close>.\<close>

definition existsSync :: "string \<Rightarrow> hls_dir \<Rightarrow> bool" where
  "existsSync file d = (file \<in> set (listing d))"

definition status_request :: "world \<Rightarrow> status_reply" where
  "status_request w =
     (let isRunning' = isRunning (streamState w);
          hlsExists = existsSync ''stream.m3u8'' (hlsDir w)
      in \<lparr>st_isRunning = isRunning',
          st_hlsAvailable = hlsExists,
          st_hlsUrl = (if hlsExists then Some ''http://localhost:3001/hls/stream.m3u8'' else None),
          st_rtspUrl = rtspUrl (streamState w),
          st_startTime = startTime (streamState w),
          st_mode = (if hasFFmpeg (streamState w) then ''production'' else ''demo''),
          st_hasFFmpeg = hasFFmpeg (streamState w)\<rparr>)"

subsection \<open>The event loop\<close>

text \<open>
  Every callback of the server runs to completion before the next one starts. An event is
  one callback: the \<open>.then\<close> of the probe, a request, or a handler or timer of a child.
  An \<open>'error'\<close> or \<open>'close'\<close> event of a child comes with the fact that its process is
  no more, which \<open>mark_gone\<close> records before the handler runs.
\<close>

definition mark_gone :: "pid \<Rightarrow> world \<Rightarrow> world" where
  "mark_gone p w = upd_child p (\<lambda>c. c\<lparr>gone := True\<rparr>) w"

datatype event =
    ProbeDone bool
  | StartRequest "string option" nat
  | StopRequest
  | StatusRequest
  | ChildError pid
  | ChildClose pid "int option"
  | GraceTimer pid nat

fun step :: "event \<Rightarrow> world \<Rightarrow> world" where
  "step (ProbeDone b) w = w\<lparr>streamState := (streamState w)\<lparr>hasFFmpeg := b\<rparr>\<rparr>"
| "step (StartRequest body now) w = snd (start_request body now w)"
| "step StopRequest w = snd (stop_request w)"
| "step StatusRequest w = w"
| "step (ChildError p) w = on_error p (mark_gone p w)"
| "step (ChildClose p code) w = on_close p code (mark_gone p w)"
| "step (GraceTimer p now) w = on_timer p now w"

fun run :: "event list \<Rightarrow> world \<Rightarrow> world" where
  "run [] w = w"
| "run (e # es) w = run es (step e w)"

text \<open>
  The state of the job, read off the child itself and not off \<open>streamState\<close>. The job is
  the child spawned last. It is starting or running while that child lives and has not
  been sent \<open>SIGTERM\<close>: starting while the timer of its call is pending, running after.
  Once the child is gone (it exited or could not be spawned) the job is failed or idle;
  after a stop, which signals the child, it is idle.
\<close>

definition job_starting_or_running :: "world \<Rightarrow> bool" where
  "job_starting_or_running w =
     (case rev (children w) of
        [] \<Rightarrow> False
      | c # _ \<Rightarrow> \<not> gone c \<and> \<not> sigterm c)"

text \<open>
  What the handlers keep true of the handle: while it is set, \<open>isRunning\<close> is set and the
  handle is the child spawned last, which lives and has not been signalled; while it is
  null, \<open>isRunning\<close> is false.
\<close>

definition handle_owns_live_child :: "world \<Rightarrow> bool" where
  "handle_owns_live_child w =
     (case ffmpegProcess (streamState w) of
        None \<Rightarrow> \<not> isRunning (streamState w)
      | Some p \<Rightarrow>
          isRunning (streamState w) \<and> Suc p = length (children w) \<and>
          \<not> gone (children w ! p) \<and> \<not> sigterm (children w ! p))"

text \<open>
  A name whose deletion is attempted and throws: it ends in \<open>.m3u8\<close> or \<open>.ts\<close> and
  \<open>unlinkSync\<close> fails on it.
\<close>

definition blocked :: "hls_dir \<Rightarrow> string \<Rightarrow> bool" where
  "blocked d file = (is_hls_file file \<and> file \<in> set (undeletable d))"

text \<open>Worlds used as concrete inputs: an empty directory, and a server whose probe succeeded.\<close>

definition empty_dir :: hls_dir where
  "empty_dir = \<lparr>listing = [], unreadable = False, undeletable = []\<rparr>"

definition capable_world :: world where
  "capable_world = step (ProbeDone True) (initial_world empty_dir)"


section \<open>Properties of the probe\<close>

lemma probe_handle_keeps: "resolved p = Some b \<Longrightarrow> resolved (probe_handle e p) = Some b"
  by (cases e) (simp_all add: resolve_def)

lemma probe_timer_keeps: "resolved p = Some b \<Longrightarrow> resolved (probe_timer p) = Some b"
  by (simp add: probe_timer_def resolve_def)

lemma probe_dispatch_keeps:
  "resolved p = Some b \<Longrightarrow> resolved (probe_dispatch p evs) = Some b"
proof (induction evs arbitrary: p)
  case Nil
  then show ?case by (simp add: probe_timer_keeps)
next
  case (Cons x evs)
  obtain t e where x: "x = (t, e)" by (cases x)
  show ?case using Cons.prems
    by (simp add: x Cons.IH probe_handle_keeps probe_timer_keeps)
qed

text \<open>While the promise is pending, the handlers compute the contract.\<close>

lemma probe_dispatch_pending:
  "resolved p = None \<Longrightarrow>
   resolved (probe_dispatch p evs) = Some (probe_spec (hasOutput p) evs)"
proof (induction evs arbitrary: p)
  case Nil
  then show ?case by (simp add: probe_timer_def resolve_def)
next
  case (Cons x evs)
  obtain t e where x: "x = (t, e)" by (cases x)
  show ?case
  proof (cases "t < probe_timeout_ms")
    case True
    show ?thesis
    proof (cases e)
      case StdoutData
      then show ?thesis using Cons.prems True by (simp add: x Cons.IH)
    next
      case StderrData
      then show ?thesis using Cons.prems True by (simp add: x Cons.IH)
    next
      case ProbeError
      then show ?thesis using Cons.prems True
        by (simp add: x resolve_def probe_dispatch_keeps)
    next
      case (ProbeClose c)
      then show ?thesis using Cons.prems True
        by (simp add: x resolve_def probe_dispatch_keeps)
    qed
  next
    case False
    have "resolved (probe_timer p) = Some False"
      using Cons.prems by (simp add: probe_timer_def resolve_def)
    then have "resolved (probe_dispatch (probe_handle e (probe_timer p)) evs) = Some False"
      by (simp add: probe_handle_keeps probe_dispatch_keeps)
    then show ?thesis using False by (simp add: x)
  qed
qed

text \<open>
  The contract holds exactly for the runs that begin with output events only (at least one,
  unless output was seen before), followed by an exit with status 0, all before the timeout.
\<close>

lemma probe_spec_iff:
  "probe_spec h evs \<longleftrightarrow>
   (\<exists>pre t post. evs = pre @ (t, ProbeClose (Some 0)) # post \<and> t < probe_timeout_ms \<and>
      (\<forall>(s, e) \<in> set pre. s < probe_timeout_ms \<and> is_data e) \<and> (h \<or> pre \<noteq> []))"
proof (induction evs arbitrary: h)
  case Nil
  then show ?case by simp
next
  case (Cons x evs)
  obtain t e where x: "x = (t, e)" by (cases x)
  have data: "probe_spec h ((t, e) # evs) \<longleftrightarrow>
      (\<exists>pre t' post. (t, e) # evs = pre @ (t', ProbeClose (Some 0)) # post \<and>
        t' < probe_timeout_ms \<and>
        (\<forall>(s, e) \<in> set pre. s < probe_timeout_ms \<and> is_data e) \<and> (h \<or> pre \<noteq> []))"
    if d: "is_data e"
      and fe: "probe_spec h ((t, e) # evs) = (t < probe_timeout_ms \<and> probe_spec True evs)"
  proof
    assume "probe_spec h ((t, e) # evs)"
    then have tl: "t < probe_timeout_ms" and "probe_spec True evs" using fe by simp_all
    then obtain pre t' post where p: "evs = pre @ (t', ProbeClose (Some 0)) # post"
      "t' < probe_timeout_ms" "\<forall>(s, e) \<in> set pre. s < probe_timeout_ms \<and> is_data e"
      using Cons.IH [of True] by blast
    have "(t, e) # evs = ((t, e) # pre) @ (t', ProbeClose (Some 0)) # post"
      using p(1) by simp
    moreover have "\<forall>(s, e) \<in> set ((t, e) # pre). s < probe_timeout_ms \<and> is_data e"
      using p(3) tl d by simp
    ultimately show "\<exists>pre t' post. (t, e) # evs = pre @ (t', ProbeClose (Some 0)) # post \<and>
      t' < probe_timeout_ms \<and>
      (\<forall>(s, e) \<in> set pre. s < probe_timeout_ms \<and> is_data e) \<and> (h \<or> pre \<noteq> [])"
      using p(2) by blast
  next
    assume "\<exists>pre t' post. (t, e) # evs = pre @ (t', ProbeClose (Some 0)) # post \<and>
      t' < probe_timeout_ms \<and>
      (\<forall>(s, e) \<in> set pre. s < probe_timeout_ms \<and> is_data e) \<and> (h \<or> pre \<noteq> [])"
    then obtain pre t' post where p: "(t, e) # evs = pre @ (t', ProbeClose (Some 0)) # post"
      "t' < probe_timeout_ms" "\<forall>(s, e) \<in> set pre. s < probe_timeout_ms \<and> is_data e"
      by blast
    have "pre \<noteq> []" using p(1) d by (cases pre) auto
    then obtain pre' where pre: "pre = (t, e) # pre'" using p(1) by (cases pre) auto
    then have "evs = pre' @ (t', ProbeClose (Some 0)) # post" using p(1) by simp
    moreover have "\<forall>(s, e) \<in> set pre'. s < probe_timeout_ms \<and> is_data e"
      using p(3) pre by simp
    ultimately have "probe_spec True evs" using Cons.IH [of True] p(2) by blast
    moreover have "t < probe_timeout_ms" using p(3) pre by simp
    ultimately show "probe_spec h ((t, e) # evs)" using fe by simp
  qed
  show ?case
  proof (cases e)
    case StdoutData
    then show ?thesis using data by (simp add: x)
  next
    case StderrData
    then show ?thesis using data by (simp add: x)
  next
    case ProbeError
    then show ?thesis
      by (auto simp: x Cons_eq_append_conv)
  next
    case (ProbeClose c)
    show ?thesis
    proof
      assume "probe_spec h (x # evs)"
      then have "t < probe_timeout_ms" "c = Some 0" "h" using ProbeClose by (simp_all add: x)
      then have "x # evs = [] @ (t, ProbeClose (Some 0)) # evs \<and> t < probe_timeout_ms \<and>
        (\<forall>(s, e) \<in> set []. s < probe_timeout_ms \<and> is_data e) \<and> (h \<or> [] \<noteq> [])"
        using ProbeClose by (simp add: x)
      then show "\<exists>pre t post. x # evs = pre @ (t, ProbeClose (Some 0)) # post \<and>
        t < probe_timeout_ms \<and>
        (\<forall>(s, e) \<in> set pre. s < probe_timeout_ms \<and> is_data e) \<and> (h \<or> pre \<noteq> [])"
        by blast
    next
      assume "\<exists>pre t post. x # evs = pre @ (t, ProbeClose (Some 0)) # post \<and>
        t < probe_timeout_ms \<and>
        (\<forall>(s, e) \<in> set pre. s < probe_timeout_ms \<and> is_data e) \<and> (h \<or> pre \<noteq> [])"
      then obtain pre t' post where p: "x # evs = pre @ (t', ProbeClose (Some 0)) # post"
        "t' < probe_timeout_ms" "\<forall>(s, e) \<in> set pre. s < probe_timeout_ms \<and> is_data e"
        "h \<or> pre \<noteq> []"
        by blast
      have "pre = []"
      proof (cases pre)
        case Nil
        then show ?thesis .
      next
        case (Cons y ys)
        then have "y = (t, ProbeClose c)" using p(1) ProbeClose by (simp add: x)
        then show ?thesis using p(3) Cons by simp
      qed
      then show "probe_spec h (x # evs)" using p ProbeClose by (simp add: x)
    qed
  qed
qed

text \<open>
  C5. The probe answers true exactly when the child produced at least one chunk of output
  on stdout or stderr and then exited with status 0, with every one of these events
  dispatched before the 5000 ms timeout and no error event before the exit. In every
  other run (spawn error, exit with another status or by a signal, timeout first) and when
  \<open>spawn\<close> itself throws, it answers false; it always answers.
\<close>

theorem checkFFmpeg_true_iff:
  "(checkFFmpeg (Spawned evs) = Some True \<longleftrightarrow>
      (\<exists>pre t post. evs = pre @ (t, ProbeClose (Some 0)) # post \<and> t < probe_timeout_ms \<and>
         (\<forall>(s, e) \<in> set pre. s < probe_timeout_ms \<and> is_data e) \<and> pre \<noteq> [])) \<and>
   (checkFFmpeg (Spawned evs) = Some True \<or> checkFFmpeg (Spawned evs) = Some False) \<and>
   checkFFmpeg SpawnThrows = Some False"
proof -
  have r: "checkFFmpeg (Spawned evs) = Some (probe_spec False evs)"
    by (simp add: checkFFmpeg_def probe_dispatch_pending)
  have "probe_spec False evs \<longleftrightarrow>
      (\<exists>pre t post. evs = pre @ (t, ProbeClose (Some 0)) # post \<and> t < probe_timeout_ms \<and>
         (\<forall>(s, e) \<in> set pre. s < probe_timeout_ms \<and> is_data e) \<and> pre \<noteq> [])"
    using probe_spec_iff [of False evs] by simp
  then have a: "checkFFmpeg (Spawned evs) = Some True \<longleftrightarrow>
      (\<exists>pre t post. evs = pre @ (t, ProbeClose (Some 0)) # post \<and> t < probe_timeout_ms \<and>
         (\<forall>(s, e) \<in> set pre. s < probe_timeout_ms \<and> is_data e) \<and> pre \<noteq> [])"
    by (simp only: r option.inject simp_thms)
  have b: "checkFFmpeg (Spawned evs) = Some True \<or> checkFFmpeg (Spawned evs) = Some False"
    by (simp only: r option.inject simp_thms)
  have c: "checkFFmpeg SpawnThrows = Some False"
    by (simp add: checkFFmpeg_def)
  from a b c show ?thesis by (intro conjI)
qed

theorem checkFFmpeg_true_iff_witness:
  "checkFFmpeg (Spawned [(120, StderrData), (150, ProbeClose (Some 0))]) = Some True \<and>
   checkFFmpeg (Spawned [(120, StderrData), (150, ProbeClose (Some 1))]) = Some False \<and>
   checkFFmpeg (Spawned [(150, ProbeClose (Some 0))]) = Some False \<and>
   checkFFmpeg (Spawned [(120, StderrData), (5000, ProbeClose (Some 0))]) = Some False"
proof -
  have "\<exists>pre t post. [(120, StderrData), (150, ProbeClose (Some 0))]
          = pre @ (t, ProbeClose (Some 0)) # post \<and> t < probe_timeout_ms \<and>
         (\<forall>(s, e) \<in> set pre. s < probe_timeout_ms \<and> is_data e) \<and> pre \<noteq> []"
    by (rule exI [of _ "[(120, StderrData)]"], rule exI [of _ 150], rule exI [of _ "[]"])
       (simp add: probe_timeout_ms_def)
  then have "checkFFmpeg (Spawned [(120, StderrData), (150, ProbeClose (Some 0))]) = Some True"
    using checkFFmpeg_true_iff [of "[(120, StderrData), (150, ProbeClose (Some 0))]"]
    by blast
  then show ?thesis
    by (simp add: checkFFmpeg_def probe_timer_def resolve_def probe_timeout_ms_def)
qed


section \<open>Properties of the supervisor\<close>

subsection \<open>Basic facts\<close>

lemma upd_child_state [simp]: "streamState (upd_child p f w) = streamState w"
  by (simp add: upd_child_def)

lemma upd_child_dir [simp]: "hlsDir (upd_child p f w) = hlsDir w"
  by (simp add: upd_child_def)

lemma upd_child_errors [simp]: "cleanupErrors (upd_child p f w) = cleanupErrors w"
  by (simp add: upd_child_def)

lemma upd_child_length [simp]: "length (children (upd_child p f w)) = length (children w)"
  by (simp add: upd_child_def)

lemma kill_length [simp]: "length (children (kill p w)) = length (children w)"
  by (simp add: kill_def)

lemma kill_state [simp]: "streamState (kill p w) = streamState w"
  by (simp add: kill_def)

lemma on_timer_state [simp]: "streamState (on_timer p now w) = streamState w"
  by (simp add: on_timer_def settle_def Let_def split: option.splits)

text \<open>What a start call does on a server whose probe succeeded.\<close>

lemma start_spawns:
  assumes "hasFFmpeg (streamState w)"
  shows "fst (startRTSPStream url t0 w) = Inr (length (children w))"
    and "length (children (snd (startRTSPStream url t0 w))) = Suc (length (children w))"
    and "children (snd (startRTSPStream url t0 w)) ! length (children w) =
          \<lparr>source = url, sigterm = False, gone = False,
           timerDue = Some (t0 + grace_delay_ms), settled = None\<rparr>"
    and "streamState (snd (startRTSPStream url t0 w)) =
          (streamState w)\<lparr>ffmpegProcess := Some (length (children w)), isRunning := True,
                  rtspUrl := Some url, startTime := Some t0\<rparr>"
  using assms
  by (simp_all add: startRTSPStream_def Let_def nth_append split: option.splits)

subsection \<open>The handle and the state of the job\<close>

lemma mark_gone_state [simp]: "streamState (mark_gone p w) = streamState w"
  by (simp add: mark_gone_def)

lemma settle_state [simp]: "streamState (settle p out w) = streamState w"
  by (simp add: settle_def)

lemma on_error_owns: "handle_owns_live_child (on_error p w)"
  by (simp add: handle_owns_live_child_def on_error_def)

lemma on_close_owns: "handle_owns_live_child (on_close p code w)"
  by (simp add: handle_owns_live_child_def on_close_def Let_def split: option.splits)

lemma stopRTSPStream_owns: "handle_owns_live_child (stopRTSPStream w)"
  by (simp add: handle_owns_live_child_def stopRTSPStream_def kill_def Let_def
      split: option.splits prod.splits)

lemma startRTSPStream_owns:
  "handle_owns_live_child w \<Longrightarrow> handle_owns_live_child (snd (startRTSPStream url now w))"
  by (simp add: handle_owns_live_child_def startRTSPStream_def Let_def nth_append
      split: option.splits)

lemma start_request_owns:
  "handle_owns_live_child w \<Longrightarrow> handle_owns_live_child (snd (start_request body now w))"
proof (cases body)
  case None
  assume "handle_owns_live_child w"
  then show ?thesis using None by (simp add: start_request_def)
next
  case (Some url)
  assume inv: "handle_owns_live_child w"
  obtain r w' where r: "startRTSPStream url now w = (r, w')"
    by (cases "startRTSPStream url now w")
  then have "handle_owns_live_child w'" using startRTSPStream_owns [OF inv, of url now] by simp
  then show ?thesis using inv Some r
    by (cases r) (simp_all add: start_request_def)
qed

text \<open>The timer touches the timer and the promise of a child, nothing else.\<close>

lemma on_timer_children:
  "length (children (on_timer p now w)) = length (children w)"
  "q < length (children w) \<Longrightarrow>
     gone (children (on_timer p now w) ! q) = gone (children w ! q)"
  "q < length (children w) \<Longrightarrow>
     sigterm (children (on_timer p now w) ! q) = sigterm (children w ! q)"
  by (simp_all add: on_timer_def settle_def upd_child_def Let_def nth_list_update
      split: option.splits)

lemma on_timer_owns:
  "handle_owns_live_child w \<Longrightarrow> handle_owns_live_child (on_timer p now w)"
  by (auto simp: handle_owns_live_child_def on_timer_children split: option.splits)

lemma step_owns: "handle_owns_live_child w \<Longrightarrow> handle_owns_live_child (step e w)"
proof (cases e)
  case (ProbeDone b)
  assume "handle_owns_live_child w"
  then show ?thesis using ProbeDone
    by (simp add: handle_owns_live_child_def split: option.splits)
next
  case (StartRequest body now)
  assume "handle_owns_live_child w"
  then show ?thesis using StartRequest by (simp add: start_request_owns)
next
  case StopRequest
  then show ?thesis by (simp add: stop_request_def stopRTSPStream_owns)
next
  case StatusRequest
  assume "handle_owns_live_child w"
  then show ?thesis using StatusRequest by simp
next
  case (ChildError p)
  then show ?thesis by (simp add: on_error_owns)
next
  case (ChildClose p code)
  then show ?thesis by (simp add: on_close_owns)
next
  case (GraceTimer p now)
  assume "handle_owns_live_child w"
  then show ?thesis using GraceTimer by (simp add: on_timer_owns)
qed

lemma run_owns: "handle_owns_live_child w \<Longrightarrow> handle_owns_live_child (run es w)"
  by (induction es arbitrary: w) (simp_all add: step_owns)

lemma initial_owns: "handle_owns_live_child (initial_world d)"
  by (simp add: handle_owns_live_child_def initial_world_def initial_state_def)

text \<open>
  One half of the equivalence holds in every state the server can reach: a handle that is
  set belongs to a job that is starting or running. No exit, error or stop leaves the
  handle set on a job that is idle or failed.
\<close>

lemma handle_set_job_active:
  "ffmpegProcess (streamState (run es (initial_world d))) \<noteq> None \<Longrightarrow>
   job_starting_or_running (run es (initial_world d))"
proof -
  let ?w = "run es (initial_world d)"
  assume h: "ffmpegProcess (streamState ?w) \<noteq> None"
  then obtain p where p: "ffmpegProcess (streamState ?w) = Some p" by blast
  have "handle_owns_live_child ?w" by (rule run_owns) (rule initial_owns)
  then have l: "Suc p = length (children ?w)"
    and g: "\<not> gone (children ?w ! p)" and s: "\<not> sigterm (children ?w ! p)"
    using p by (simp_all add: handle_owns_live_child_def)
  from l have ne: "children ?w \<noteq> []" by auto
  have lp: "length (children ?w) - 1 = p" using l by arith
  have lst: "last (children ?w) = children ?w ! p"
    using last_conv_nth [OF ne] lp by simp
  obtain c cs where r: "rev (children ?w) = c # cs"
    using ne by (cases "rev (children ?w)") simp_all
  have "c = last (children ?w)"
    using r ne by (metis hd_rev list.sel(1))
  then have c: "\<not> gone c \<and> \<not> sigterm c" using lst g s by simp
  show ?thesis
    unfolding job_starting_or_running_def r using c by simp
qed

text \<open>
  C3. The other half fails. The \<open>'close'\<close> handler clears the handle and the flag without
  asking whose child has closed. Start a job, start a second one before the first has
  exited (the first child is sent \<open>SIGTERM\<close>, the second is spawned and becomes the handle),
  then let the first child close: the handle is null and \<open>isRunning\<close> is false, while the
  second child lives, has not been signalled and is inside its grace delay, so the job is
  starting. A stop request that follows sends it no signal.
\<close>

theorem replaced_start_loses_handle:
  "job_starting_or_running
     (run [ProbeDone True, StartRequest (Some ''rtsp://a/1'') 0,
           StartRequest (Some ''rtsp://b/2'') 1000, ChildClose 0 None]
        (initial_world \<lparr>listing = [], unreadable = False, undeletable = []\<rparr>)) \<and>
   ffmpegProcess (streamState
     (run [ProbeDone True, StartRequest (Some ''rtsp://a/1'') 0,
           StartRequest (Some ''rtsp://b/2'') 1000, ChildClose 0 None]
        (initial_world \<lparr>listing = [], unreadable = False, undeletable = []\<rparr>))) = None \<and>
   \<not> isRunning (streamState
     (run [ProbeDone True, StartRequest (Some ''rtsp://a/1'') 0,
           StartRequest (Some ''rtsp://b/2'') 1000, ChildClose 0 None]
        (initial_world \<lparr>listing = [], unreadable = False, undeletable = []\<rparr>))) \<and>
   children
     (run [ProbeDone True, StartRequest (Some ''rtsp://a/1'') 0,
           StartRequest (Some ''rtsp://b/2'') 1000, ChildClose 0 None, StopRequest]
        (initial_world \<lparr>listing = [], unreadable = False, undeletable = []\<rparr>))
   = [\<lparr>source = ''rtsp://a/1'', sigterm = True, gone = True,
       timerDue = Some 3000, settled = None\<rparr>,
      \<lparr>source = ''rtsp://b/2'', sigterm = False, gone = False,
       timerDue = Some 4000, settled = None\<rparr>]"
  by (simp add: initial_world_def initial_state_def start_request_def startRTSPStream_def
      Let_def on_close_def mark_gone_def upd_child_def kill_def stop_request_def
      stopRTSPStream_def cleanup_def job_starting_or_running_def grace_delay_ms_def)

subsection \<open>Start: the capability gate and the request check\<close>

text \<open>
  C2. While \<open>hasFFmpeg\<close> is false, \<open>startRTSPStream\<close> throws the capability error at once
  and changes nothing; the route changes nothing either (so no child is spawned) and, for
  a request that carries a source address, answers at once with status 500 and the error
  "FFmpeg not available".
\<close>

theorem capability_gate:
  "\<not> hasFFmpeg (streamState w) \<Longrightarrow>
   startRTSPStream url now w = (Inl NotAvailable, w) \<and>
   snd (start_request body now w) = w \<and>
   children (snd (start_request body now w)) = children w \<and>
   (\<not> falsy body \<longrightarrow>
      fst (start_request body now w) = Replied (Reply 500 ''FFmpeg not available''))"
  by (cases body) (simp_all add: startRTSPStream_def start_request_def)

theorem capability_gate_witness:
  "\<not> hasFFmpeg (streamState (initial_world empty_dir)) \<and>
   \<not> falsy (Some ''rtsp://host/stream'') \<and>
   startRTSPStream ''rtsp://host/stream'' 7 (initial_world empty_dir)
     = (Inl NotAvailable, initial_world empty_dir) \<and>
   start_request (Some ''rtsp://host/stream'') 7 (initial_world empty_dir)
     = (Replied (Reply 500 ''FFmpeg not available''), initial_world empty_dir)"
proof -
  have h: "\<not> hasFFmpeg (streamState (initial_world empty_dir))"
    by (simp add: initial_world_def initial_state_def)
  have t: "\<not> falsy (Some ''rtsp://host/stream'')" by simp
  show ?thesis
    using h t capability_gate [OF h, of "''rtsp://host/stream''" 7 "Some ''rtsp://host/stream''"]
    by (simp add: prod_eq_iff)
qed

text \<open>
  C9. A start request whose source address is missing or empty is answered with status
  400; the world is unchanged: no child is spawned and \<open>streamState\<close> is not touched.
\<close>

theorem missing_url_rejected:
  "falsy body \<Longrightarrow>
   start_request body now w = (Replied (Reply 400 ''RTSP URL is required''), w)"
  by (cases body) (simp_all add: start_request_def)

theorem missing_url_rejected_witness:
  "falsy None \<and> falsy (Some []) \<and>
   start_request None 5 capable_world
     = (Replied (Reply 400 ''RTSP URL is required''), capable_world) \<and>
   start_request (Some []) 5 capable_world
     = (Replied (Reply 400 ''RTSP URL is required''), capable_world)"
proof -
  have a: "falsy None" and b: "falsy (Some [])" by simp_all
  show ?thesis
    using a b missing_url_rejected [OF a, of 5 capable_world]
      missing_url_rejected [OF b, of 5 capable_world]
    by simp
qed

subsection \<open>Status\<close>

text \<open>
  C8. In the answer to a status request, \<open>isRunning\<close> is the flag of \<open>streamState\<close>
  whatever the directory holds; \<open>hlsAvailable\<close> tells whether \<open>stream.m3u8\<close> is in the
  directory at the time of the call, whatever \<open>streamState\<close> holds; \<open>hlsUrl\<close> is non-null
  if and only if that file exists. The request changes nothing.
\<close>

theorem status_reads:
  "st_isRunning (status_request w) = isRunning (streamState w) \<and>
   st_isRunning (status_request (w\<lparr>hlsDir := d\<rparr>)) = st_isRunning (status_request w) \<and>
   st_hlsAvailable (status_request w) = (''stream.m3u8'' \<in> set (listing (hlsDir w))) \<and>
   st_hlsAvailable (status_request (w\<lparr>streamState := s\<rparr>)) = st_hlsAvailable (status_request w) \<and>
   (st_hlsUrl (status_request w) \<noteq> None) = (''stream.m3u8'' \<in> set (listing (hlsDir w))) \<and>
   step StatusRequest w = w"
  by (simp add: status_request_def existsSync_def Let_def)

theorem status_reads_witness:
  "st_hlsAvailable (status_request
     (initial_world \<lparr>listing = [''stream.m3u8'', ''segment000.ts''], unreadable = False,
                     undeletable = []\<rparr>)) \<and>
   \<not> st_isRunning (status_request
     (initial_world \<lparr>listing = [''stream.m3u8'', ''segment000.ts''], unreadable = False,
                     undeletable = []\<rparr>)) \<and>
   st_hlsUrl (status_request
     (initial_world \<lparr>listing = [''stream.m3u8'', ''segment000.ts''], unreadable = False,
                     undeletable = []\<rparr>)) \<noteq> None"
  using status_reads
    [of "initial_world \<lparr>listing = [''stream.m3u8'', ''segment000.ts''], unreadable = False,
                     undeletable = []\<rparr>"]
  by (simp add: initial_world_def initial_state_def)


subsection \<open>Start: the grace timer\<close>

text \<open>
  C1, as the code has it. Take a start call at time \<open>t0\<close> on a server whose probe
  succeeded; it spawns child \<open>p\<close> and its promise is pending. Suppose that no other request
  and no event of another child is handled before the timer of the call runs, at a time
  \<open>t\<close> with \<open>t0 + 3000 \<le> t\<close>.
  \<^item> The timer does not run before \<open>t0 + 3000\<close>, and until then the promise is pending
    unless the child exits.
  \<^item> If \<open>p\<close> has not exited, the timer finds \<open>isRunning\<close> true and resolves the promise
    with the playlist path.
  \<^item> If \<open>p\<close> exited with a code \<open>c \<noteq> 0\<close>, the \<open>'close'\<close> handler has rejected the promise,
    at the exit, with the error that carries \<open>c\<close>; the timer leaves that in place.
  \<^item> If \<open>p\<close> exited with code 0, or was ended by a signal (code \<open>null\<close>), the \<open>'close'\<close>
    handler rejects nothing, and the timer rejects the promise with the error "failed to
    start within timeout period", which carries no exit code.
\<close>

theorem start_grace_outcome:
  "hasFFmpeg (streamState w) \<Longrightarrow> t0 + grace_delay_ms \<le> t \<Longrightarrow> c \<noteq> 0 \<Longrightarrow>
   (let p = length (children w); w1 = snd (startRTSPStream url t0 w) in
      fst (startRTSPStream url t0 w) = Inr p \<and>
      outcome_of p w1 = None \<and>
      (\<forall>t' < t0 + grace_delay_ms. on_timer p t' w1 = w1) \<and>
      outcome_of p (on_timer p t w1) = Some (Resolved outputPath) \<and>
      isRunning (streamState (on_timer p t w1)) \<and>
      outcome_of p (on_close p (Some c) w1) = Some (Rejected (ExitCode c)) \<and>
      outcome_of p (on_timer p t (on_close p (Some c) w1)) = Some (Rejected (ExitCode c)) \<and>
      outcome_of p (on_timer p t (on_close p (Some 0) w1)) = Some (Rejected StartTimeout) \<and>
      outcome_of p (on_timer p t (on_close p None w1)) = Some (Rejected StartTimeout))"
  using start_spawns [of w url t0]
  by (simp add: Let_def outcome_of_def on_timer_def on_close_def settle_def upd_child_def)

theorem start_grace_outcome_witness:
  "hasFFmpeg (streamState capable_world) \<and> 0 + grace_delay_ms \<le> 3000 \<and> (1::int) \<noteq> 0 \<and>
   fst (startRTSPStream ''rtsp://host/stream'' 0 capable_world) = Inr 0 \<and>
   on_timer 0 2999 (snd (startRTSPStream ''rtsp://host/stream'' 0 capable_world))
     = snd (startRTSPStream ''rtsp://host/stream'' 0 capable_world) \<and>
   outcome_of 0 (on_timer 0 3000 (snd (startRTSPStream ''rtsp://host/stream'' 0 capable_world)))
     = Some (Resolved outputPath) \<and>
   outcome_of 0 (on_close 0 (Some 1) (snd (startRTSPStream ''rtsp://host/stream'' 0 capable_world)))
     = Some (Rejected (ExitCode 1))"
proof -
  have h: "hasFFmpeg (streamState capable_world)"
    by (simp add: capable_world_def initial_world_def)
  have g: "0 + grace_delay_ms \<le> 3000" by (simp add: grace_delay_ms_def)
  have c: "(1::int) \<noteq> 0" by simp
  have n: "length (children capable_world) = 0"
    by (simp add: capable_world_def initial_world_def)
  have l: "(2999::nat) < 0 + grace_delay_ms" by (simp add: grace_delay_ms_def)
  show ?thesis
    using h g c l start_grace_outcome [OF h g c, of "''rtsp://host/stream''"]
    by (simp add: Let_def n)
qed

text \<open>
  C1 as stated fails: a child that exits with code 0 inside the grace delay makes the start
  call fail with the timeout error, which carries no exit code.
\<close>

theorem early_clean_exit_counterexample:
  "outcome_of 0
     (run [ProbeDone True, StartRequest (Some ''rtsp://host/stream'') 0,
           ChildClose 0 (Some 0), GraceTimer 0 3000]
        (initial_world \<lparr>listing = [], unreadable = False, undeletable = []\<rparr>))
   = Some (Rejected StartTimeout)"
  by (simp add: initial_world_def initial_state_def start_request_def startRTSPStream_def
      Let_def on_close_def on_timer_def settle_def upd_child_def outcome_of_def
      grace_delay_ms_def mark_gone_def)

text \<open>
  The timer reads the shared flag, not the child of its own call. When a second start
  replaces a running job, the \<open>'close'\<close> event of the replaced child clears the flag and
  the handle that now belong to the new child, and the timer of the new call then rejects
  its promise while the new child has not exited; \<open>streamState\<close> no longer refers to it.
\<close>

lemma replaced_child_close_clears_new_job:
  "outcome_of 1
     (run [ProbeDone True, StartRequest (Some ''rtsp://a/1'') 0,
           StartRequest (Some ''rtsp://b/2'') 1000, ChildClose 0 None, GraceTimer 1 4000]
        (initial_world \<lparr>listing = [], unreadable = False, undeletable = []\<rparr>))
   = Some (Rejected StartTimeout) \<and>
   ffmpegProcess (streamState
     (run [ProbeDone True, StartRequest (Some ''rtsp://a/1'') 0,
           StartRequest (Some ''rtsp://b/2'') 1000, ChildClose 0 None, GraceTimer 1 4000]
        (initial_world \<lparr>listing = [], unreadable = False, undeletable = []\<rparr>))) = None"
  by (simp add: initial_world_def initial_state_def start_request_def startRTSPStream_def
      Let_def on_close_def on_timer_def settle_def upd_child_def outcome_of_def kill_def
      grace_delay_ms_def mark_gone_def)

subsection \<open>Exit of a running child\<close>

text \<open>
  C4, as the code has it. When a child whose start call has returned the playlist exits,
  the \<open>'close'\<close> handler clears \<open>isRunning\<close> and the handle and nothing else, whatever the
  exit code: the source address and the start time stay, the settled promise stays, and
  neither the code nor a failure is recorded anywhere.
\<close>

theorem exit_after_running:
  "outcome_of p w = Some (Resolved outputPath) \<Longrightarrow>
   on_close p code w =
     w\<lparr>streamState := (streamState w)\<lparr>isRunning := False, ffmpegProcess := None\<rparr>\<rparr>"
  by (cases "p < length (children w)")
     (auto simp: outcome_of_def on_close_def settle_def upd_child_def Let_def
        split: option.splits)

theorem exit_after_running_witness:
  "outcome_of 0 (on_timer 0 3000 (snd (startRTSPStream ''rtsp://host/stream'' 0 capable_world)))
     = Some (Resolved outputPath) \<and>
   rtspUrl (streamState (on_close 0 (Some 1)
     (on_timer 0 3000 (snd (startRTSPStream ''rtsp://host/stream'' 0 capable_world)))))
     = Some ''rtsp://host/stream'' \<and>
   \<not> isRunning (streamState (on_close 0 (Some 1)
     (on_timer 0 3000 (snd (startRTSPStream ''rtsp://host/stream'' 0 capable_world))))) \<and>
   outcome_of 0 (on_close 0 (Some 1)
     (on_timer 0 3000 (snd (startRTSPStream ''rtsp://host/stream'' 0 capable_world))))
     = Some (Resolved outputPath)"
proof -
  let ?w = "on_timer 0 3000 (snd (startRTSPStream ''rtsp://host/stream'' 0 capable_world))"
  have h: "outcome_of 0 ?w = Some (Resolved outputPath)"
    by (simp add: capable_world_def initial_world_def initial_state_def startRTSPStream_def
        Let_def on_timer_def settle_def upd_child_def outcome_of_def grace_delay_ms_def)
  have u: "rtspUrl (streamState ?w) = Some ''rtsp://host/stream''"
    by (simp add: capable_world_def initial_world_def initial_state_def startRTSPStream_def
        Let_def)
  have o: "outcome_of 0 (?w\<lparr>streamState := s\<rparr>) = outcome_of 0 ?w" for s
    by (simp add: outcome_of_def)
  have e: "on_close 0 (Some 1) ?w =
      ?w\<lparr>streamState := (streamState ?w)\<lparr>isRunning := False, ffmpegProcess := None\<rparr>\<rparr>"
    using exit_after_running [OF h, of "Some 1"] .
  show ?thesis
    unfolding e using h u by (simp add: o)
qed

text \<open>
  C4 as stated fails: after the start call has returned, an exit with code 1 and an exit
  with code 0 leave the server in one and the same state, so no failure is surfaced for
  the first and the two cannot be told apart.
\<close>

theorem exit_code_ignored_counterexample:
  "run [ProbeDone True, StartRequest (Some ''rtsp://host/stream'') 0, GraceTimer 0 3000,
        ChildClose 0 (Some 1)]
     (initial_world \<lparr>listing = [], unreadable = False, undeletable = []\<rparr>)
   = run [ProbeDone True, StartRequest (Some ''rtsp://host/stream'') 0, GraceTimer 0 3000,
        ChildClose 0 (Some 0)]
     (initial_world \<lparr>listing = [], unreadable = False, undeletable = []\<rparr>)"
  by (simp add: initial_world_def initial_state_def start_request_def startRTSPStream_def
      Let_def on_close_def on_timer_def settle_def upd_child_def outcome_of_def
      grace_delay_ms_def mark_gone_def)


subsection \<open>Stop: the cleanup of the directory\<close>

lemma forEach_unlink_others:
  "filter (\<lambda>f. \<not> is_hls_file f) (listing (fst (forEach_unlink names d))) =
   filter (\<lambda>f. \<not> is_hls_file f) (listing d)"
proof (induction names arbitrary: d)
  case Nil
  then show ?case by simp
next
  case (Cons name names)
  show ?case
  proof (cases "is_hls_file name")
    case False
    then show ?thesis by (simp add: Cons.IH)
  next
    case True
    show ?thesis
    proof (cases "unlinkSync name d")
      case (Inl err)
      then show ?thesis using True by simp
    next
      case (Inr d')
      then have "listing d' = removeAll name (listing d)"
        by (auto simp: unlinkSync_def split: if_splits)
      then have "filter (\<lambda>f. \<not> is_hls_file f) (listing d') =
          filter (\<lambda>f. \<not> is_hls_file f) (listing d)"
        using True
        by (induction "listing d" arbitrary: d)
           (auto simp: removeAll_filter_not_eq intro: filter_cong)
      then show ?thesis using True Inr by (simp add: Cons.IH)
    qed
  qed
qed

lemma forEach_unlink_subset:
  "set (listing (fst (forEach_unlink names d))) \<subseteq> set (listing d)"
proof (induction names arbitrary: d)
  case Nil
  then show ?case by simp
next
  case (Cons name names)
  show ?case
  proof (cases "unlinkSync name d")
    case (Inl err)
    then show ?thesis using Cons.IH [of d] by simp
  next
    case (Inr d')
    then have "set (listing d') \<subseteq> set (listing d)"
      by (auto simp: unlinkSync_def split: if_splits)
    then show ?thesis using Inr Cons.IH [of d'] Cons.IH [of d] by auto
  qed
qed

lemma hlsDir_stop: "hlsDir (stopRTSPStream w) = fst (cleanup (hlsDir w))"
  by (simp add: stopRTSPStream_def kill_def Let_def split: option.splits prod.splits)

lemma cleanupErrors_stop:
  "cleanupErrors (stopRTSPStream w) =
     cleanupErrors w @ (case snd (cleanup (hlsDir w)) of None \<Rightarrow> [] | Some err \<Rightarrow> [err])"
  by (simp add: stopRTSPStream_def kill_def Let_def split: option.splits prod.splits)

lemma streamState_stop:
  "streamState (stopRTSPStream w) =
     (streamState w)\<lparr>isRunning := False, rtspUrl := None, startTime := None,
                     ffmpegProcess := None\<rparr>"
  by (simp add: stopRTSPStream_def kill_def Let_def split: option.splits prod.splits)

lemma children_stop:
  "children (stopRTSPStream w) =
     (case ffmpegProcess (streamState w) of None \<Rightarrow> children w
      | Some p \<Rightarrow> children (kill p w))"
  by (simp add: stopRTSPStream_def Let_def split: option.splits prod.splits)

text \<open>
  The loop in closed form, for a directory without repeated names: names are deleted up to
  the first one that is blocked; that one and the ones after it stay.
\<close>

lemma forEach_unlink_closed:
  "distinct (keep @ names) \<Longrightarrow> listing d = keep @ names \<Longrightarrow>
   forEach_unlink names d =
     (d\<lparr>listing := keep @ filter (\<lambda>f. \<not> is_hls_file f) (takeWhile (\<lambda>f. \<not> blocked d f) names)
                  @ dropWhile (\<lambda>f. \<not> blocked d f) names\<rparr>,
      case dropWhile (\<lambda>f. \<not> blocked d f) names of [] \<Rightarrow> None
      | f # _ \<Rightarrow> Some (UnlinkFailed f))"
proof (induction names arbitrary: keep d)
  case Nil
  then show ?case by simp
next
  case (Cons name names)
  show ?case
  proof (cases "is_hls_file name")
    case False
    have "forEach_unlink names d =
     (d\<lparr>listing := (keep @ [name]) @
          filter (\<lambda>f. \<not> is_hls_file f) (takeWhile (\<lambda>f. \<not> blocked d f) names)
                  @ dropWhile (\<lambda>f. \<not> blocked d f) names\<rparr>,
      case dropWhile (\<lambda>f. \<not> blocked d f) names of [] \<Rightarrow> None
      | f # _ \<Rightarrow> Some (UnlinkFailed f))"
      using Cons.prems by (intro Cons.IH) simp_all
    then show ?thesis using False by (simp add: blocked_def)
  next
    case True
    show ?thesis
    proof (cases "name \<in> set (undeletable d)")
      case True
      then show ?thesis using \<open>is_hls_file name\<close> Cons.prems
        by (simp add: blocked_def unlinkSync_def)
    next
      case False
      define d' where "d' = d\<lparr>listing := removeAll name (listing d)\<rparr>"
      have rm: "removeAll name (listing d) = keep @ names"
        using Cons.prems by (simp add: removeAll_id)
      have u: "unlinkSync name d = Inr d'"
        using False Cons.prems by (simp add: unlinkSync_def d'_def)
      have b: "blocked d' = blocked d" by (simp add: blocked_def d'_def fun_eq_iff)
      have "forEach_unlink names d' =
     (d'\<lparr>listing := keep @
          filter (\<lambda>f. \<not> is_hls_file f) (takeWhile (\<lambda>f. \<not> blocked d' f) names)
                  @ dropWhile (\<lambda>f. \<not> blocked d' f) names\<rparr>,
      case dropWhile (\<lambda>f. \<not> blocked d' f) names of [] \<Rightarrow> None
      | f # _ \<Rightarrow> Some (UnlinkFailed f))"
        using Cons.prems rm by (intro Cons.IH) (simp_all add: d'_def)
      then show ?thesis using True False u
        by (simp add: b blocked_def d'_def)
    qed
  qed
qed

lemma cleanup_closed:
  assumes "distinct (listing d)" and "\<not> unreadable d"
  shows "cleanup d =
     (d\<lparr>listing := filter (\<lambda>f. \<not> is_hls_file f) (takeWhile (\<lambda>f. \<not> blocked d f) (listing d))
                  @ dropWhile (\<lambda>f. \<not> blocked d f) (listing d)\<rparr>,
      case dropWhile (\<lambda>f. \<not> blocked d f) (listing d) of [] \<Rightarrow> None
      | f # _ \<Rightarrow> Some (UnlinkFailed f))"
  using forEach_unlink_closed [of "[]" "listing d" d] assms by (simp add: cleanup_def)

lemma cleanup_unreadable: "unreadable d \<Longrightarrow> cleanup d = (d, Some ReaddirFailed)"
  by (simp add: cleanup_def)

lemma takeWhile_dropWhile_nil: "takeWhile P (dropWhile P xs) = []"
  by (induction xs) simp_all

text \<open>A second cleanup finds nothing more to do.\<close>

lemma cleanup_idem:
  assumes "distinct (listing d)"
  shows "cleanup (fst (cleanup d)) = cleanup d"
proof (cases "unreadable d")
  case True
  then show ?thesis by (simp add: cleanup_def)
next
  case False
  define A where
    "A = filter (\<lambda>f. \<not> is_hls_file f) (takeWhile (\<lambda>f. \<not> blocked d f) (listing d))"
  define B where "B = dropWhile (\<lambda>f. \<not> blocked d f) (listing d)"
  define d1 where "d1 = d\<lparr>listing := A @ B\<rparr>"
  have c: "cleanup d = (d1, case B of [] \<Rightarrow> None | f # _ \<Rightarrow> Some (UnlinkFailed f))"
    using cleanup_closed [OF assms False] by (simp add: A_def B_def d1_def)
  have "distinct (takeWhile (\<lambda>f. \<not> blocked d f) (listing d) @ B)"
    using assms by (simp add: B_def)
  then have dist: "distinct (listing d1)"
    by (auto simp: d1_def A_def)
  have b: "blocked d1 = blocked d" by (simp add: blocked_def d1_def fun_eq_iff)
  have A: "\<forall>f \<in> set A. \<not> blocked d f" by (simp add: A_def blocked_def)
  have tw: "takeWhile (\<lambda>f. \<not> blocked d f) (A @ B) = A"
    using A by (simp add: takeWhile_append2 B_def takeWhile_dropWhile_nil)
  have dw: "dropWhile (\<lambda>f. \<not> blocked d f) (A @ B) = B"
    using A by (simp add: dropWhile_append2 B_def)
  have fA: "filter (\<lambda>f. \<not> is_hls_file f) A = A" by (simp add: A_def)
  have l1: "listing d1 = A @ B" and u1: "\<not> unreadable d1"
    and e1: "d1\<lparr>listing := A @ B\<rparr> = d1"
    using False by (simp_all add: d1_def)
  have "cleanup d1 = (d1, case B of [] \<Rightarrow> None | f # _ \<Rightarrow> Some (UnlinkFailed f))"
    using cleanup_closed [OF dist u1] by (simp add: b l1 tw dw fA e1)
  then show ?thesis using c by simp
qed

text \<open>
  C10. Stop leaves every name that ends neither in \<open>.m3u8\<close> nor in \<open>.ts\<close> in the
  directory, in its place among the others, and adds no name: the names it removes all end
  in \<open>.m3u8\<close> or \<open>.ts\<close>.
\<close>

theorem stop_keeps_other_files:
  "filter (\<lambda>f. \<not> is_hls_file f) (listing (hlsDir (stopRTSPStream w))) =
     filter (\<lambda>f. \<not> is_hls_file f) (listing (hlsDir w)) \<and>
   set (listing (hlsDir (stopRTSPStream w))) \<subseteq> set (listing (hlsDir w)) \<and>
   is_hls_file f = (endsWith f ''.m3u8'' \<or> endsWith f ''.ts'')"
proof (intro conjI)
  show "filter (\<lambda>f. \<not> is_hls_file f) (listing (hlsDir (stopRTSPStream w))) =
     filter (\<lambda>f. \<not> is_hls_file f) (listing (hlsDir w))"
    by (simp add: hlsDir_stop cleanup_def forEach_unlink_others)
  show "set (listing (hlsDir (stopRTSPStream w))) \<subseteq> set (listing (hlsDir w))"
    by (simp add: hlsDir_stop cleanup_def forEach_unlink_subset)
  show "is_hls_file f = (endsWith f ''.m3u8'' \<or> endsWith f ''.ts'')"
    by (simp add: is_hls_file_def)
qed

theorem stop_keeps_other_files_witness:
  "listing (hlsDir (stopRTSPStream
     (initial_world \<lparr>listing = [''stream.m3u8'', ''notes.txt'', ''segment000.ts'', ''ts''],
                     unreadable = False, undeletable = []\<rparr>)))
   = [''notes.txt'', ''ts'']"
proof -
  let ?w = "initial_world \<lparr>listing = [''stream.m3u8'', ''notes.txt'', ''segment000.ts'', ''ts''],
                     unreadable = False, undeletable = []\<rparr>"
  have "filter (\<lambda>f. \<not> is_hls_file f) (listing (hlsDir (stopRTSPStream ?w))) =
     filter (\<lambda>f. \<not> is_hls_file f) (listing (hlsDir ?w))"
    using stop_keeps_other_files [of ?w] by blast
  then show ?thesis
    by (simp add: initial_world_def initial_state_def stopRTSPStream_def Let_def cleanup_def
        unlinkSync_def is_hls_file_def endsWith_def)
qed


lemma cleanup_no_block:
  assumes "distinct (listing d)" and "\<not> unreadable d"
    and "\<forall>f \<in> set (listing d). \<not> blocked d f"
  shows "cleanup d = (d\<lparr>listing := filter (\<lambda>f. \<not> is_hls_file f) (listing d)\<rparr>, None)"
proof -
  have "takeWhile (\<lambda>f. \<not> blocked d f) (listing d) = listing d"
    using assms(3) by (simp add: takeWhile_eq_all_conv)
  moreover have "dropWhile (\<lambda>f. \<not> blocked d f) (listing d) = []"
    using assms(3) by simp
  ultimately show ?thesis
    by (simp only: cleanup_closed [OF assms(1) assms(2)] list.case append_Nil2)
qed

text \<open>
  C7, as the code has it. The \<open>try\<close> block encloses the whole loop. Stop always answers
  with the acknowledgment. If the directory cannot be listed, nothing is deleted. Otherwise
  the names ending in \<open>.m3u8\<close> or \<open>.ts\<close> are deleted in listing order up to the first one
  whose deletion throws; that name and every name after it stay, and the error is logged.
  When no deletion throws, every such name is deleted and nothing is logged.
\<close>

theorem stop_cleanup_until_first_error:
  "distinct (listing (hlsDir w)) \<Longrightarrow>
   fst (stop_request w) = Reply 200 ''RTSP stream stopped'' \<and>
   (unreadable (hlsDir w) \<longrightarrow>
      hlsDir (snd (stop_request w)) = hlsDir w \<and>
      cleanupErrors (snd (stop_request w)) = cleanupErrors w @ [ReaddirFailed]) \<and>
   (\<not> unreadable (hlsDir w) \<longrightarrow>
      listing (hlsDir (snd (stop_request w))) =
        filter (\<lambda>f. \<not> is_hls_file f)
          (takeWhile (\<lambda>f. \<not> blocked (hlsDir w) f) (listing (hlsDir w)))
        @ dropWhile (\<lambda>f. \<not> blocked (hlsDir w) f) (listing (hlsDir w)) \<and>
      cleanupErrors (snd (stop_request w)) =
        cleanupErrors w @
        (case dropWhile (\<lambda>f. \<not> blocked (hlsDir w) f) (listing (hlsDir w)) of
           [] \<Rightarrow> [] | f # _ \<Rightarrow> [UnlinkFailed f])) \<and>
   (\<not> unreadable (hlsDir w) \<and> (\<forall>f \<in> set (listing (hlsDir w)). \<not> blocked (hlsDir w) f) \<longrightarrow>
      listing (hlsDir (snd (stop_request w))) =
        filter (\<lambda>f. \<not> is_hls_file f) (listing (hlsDir w)) \<and>
      cleanupErrors (snd (stop_request w)) = cleanupErrors w)"
proof (intro conjI impI)
  assume dist: "distinct (listing (hlsDir w))"
  show "fst (stop_request w) = Reply 200 ''RTSP stream stopped''"
    by (simp add: stop_request_def)
  {
    assume "unreadable (hlsDir w)"
    then show "hlsDir (snd (stop_request w)) = hlsDir w"
      and "cleanupErrors (snd (stop_request w)) = cleanupErrors w @ [ReaddirFailed]"
      by (simp_all add: stop_request_def hlsDir_stop cleanupErrors_stop cleanup_unreadable)
  }
  {
    assume r: "\<not> unreadable (hlsDir w)"
    show "listing (hlsDir (snd (stop_request w))) =
        filter (\<lambda>f. \<not> is_hls_file f)
          (takeWhile (\<lambda>f. \<not> blocked (hlsDir w) f) (listing (hlsDir w)))
        @ dropWhile (\<lambda>f. \<not> blocked (hlsDir w) f) (listing (hlsDir w))"
      by (simp add: stop_request_def hlsDir_stop cleanup_closed [OF dist r])
    show "cleanupErrors (snd (stop_request w)) =
        cleanupErrors w @
        (case dropWhile (\<lambda>f. \<not> blocked (hlsDir w) f) (listing (hlsDir w)) of
           [] \<Rightarrow> [] | f # _ \<Rightarrow> [UnlinkFailed f])"
      by (cases "dropWhile (\<lambda>f. \<not> blocked (hlsDir w) f) (listing (hlsDir w))")
         (simp_all only: stop_request_def cleanupErrors_stop cleanup_closed [OF dist r]
            snd_conv list.case option.case)
  }
  {
    assume a: "\<not> unreadable (hlsDir w) \<and>
      (\<forall>f \<in> set (listing (hlsDir w)). \<not> blocked (hlsDir w) f)"
    then have c: "cleanup (hlsDir w) =
        ((hlsDir w)\<lparr>listing := filter (\<lambda>f. \<not> is_hls_file f) (listing (hlsDir w))\<rparr>, None)"
      using cleanup_no_block [OF dist] by blast
    show "listing (hlsDir (snd (stop_request w))) =
        filter (\<lambda>f. \<not> is_hls_file f) (listing (hlsDir w))"
      by (simp add: stop_request_def hlsDir_stop c)
    show "cleanupErrors (snd (stop_request w)) = cleanupErrors w"
      by (simp add: stop_request_def cleanupErrors_stop c)
  }
qed

theorem stop_cleanup_until_first_error_witness:
  "distinct [''stream.m3u8'', ''locked.ts'', ''segment001.ts'', ''notes.txt''] \<and>
   stop_request
     (initial_world \<lparr>listing = [''stream.m3u8'', ''locked.ts'', ''segment001.ts'', ''notes.txt''],
                     unreadable = False, undeletable = [''locked.ts'']\<rparr>)
   = (Reply 200 ''RTSP stream stopped'',
      (initial_world \<lparr>listing = [''locked.ts'', ''segment001.ts'', ''notes.txt''],
                     unreadable = False, undeletable = [''locked.ts'']\<rparr>)
        \<lparr>cleanupErrors := [UnlinkFailed ''locked.ts'']\<rparr>) \<and>
   stop_request
     (initial_world \<lparr>listing = [''stream.m3u8'', ''notes.txt'', ''segment001.ts''],
                     unreadable = False, undeletable = [''notes.txt'']\<rparr>)
   = (Reply 200 ''RTSP stream stopped'',
      initial_world \<lparr>listing = [''notes.txt''],
                     unreadable = False, undeletable = [''notes.txt'']\<rparr>) \<and>
   stop_request
     (initial_world \<lparr>listing = [''stream.m3u8''], unreadable = True, undeletable = []\<rparr>)
   = (Reply 200 ''RTSP stream stopped'',
      (initial_world \<lparr>listing = [''stream.m3u8''], unreadable = True, undeletable = []\<rparr>)
        \<lparr>cleanupErrors := [ReaddirFailed]\<rparr>)"
proof -
  let ?a = "initial_world
    \<lparr>listing = [''stream.m3u8'', ''locked.ts'', ''segment001.ts'', ''notes.txt''],
     unreadable = False, undeletable = [''locked.ts'']\<rparr>"
  let ?b = "initial_world
    \<lparr>listing = [''stream.m3u8'', ''notes.txt'', ''segment001.ts''],
     unreadable = False, undeletable = [''notes.txt'']\<rparr>"
  let ?c = "initial_world
    \<lparr>listing = [''stream.m3u8''], unreadable = True, undeletable = []\<rparr>"
  have da: "distinct (listing (hlsDir ?a))" by (simp add: initial_world_def)
  have db: "distinct (listing (hlsDir ?b))" by (simp add: initial_world_def)
  have dc: "distinct (listing (hlsDir ?c))" by (simp add: initial_world_def)
  have rb: "\<not> unreadable (hlsDir ?b) \<and>
      (\<forall>f \<in> set (listing (hlsDir ?b)). \<not> blocked (hlsDir ?b) f)"
    by (simp add: initial_world_def blocked_def is_hls_file_def endsWith_def)
  have rc: "unreadable (hlsDir ?c)" by (simp add: initial_world_def)
  have "fst (stop_request ?a) = Reply 200 ''RTSP stream stopped''"
    using stop_cleanup_until_first_error [OF da] by blast
  moreover have "cleanupErrors (snd (stop_request ?b)) = cleanupErrors ?b"
    using stop_cleanup_until_first_error [OF db] rb by blast
  moreover have "hlsDir (snd (stop_request ?c)) = hlsDir ?c"
    using stop_cleanup_until_first_error [OF dc] rc by blast
  ultimately show ?thesis
    by (simp add: prod_eq_iff stop_request_def initial_world_def initial_state_def
        stopRTSPStream_def Let_def cleanup_def unlinkSync_def is_hls_file_def endsWith_def)
qed

text \<open>
  C7 as stated fails: after the deletion of \<open>segment000.ts\<close> has thrown, the file
  \<open>segment001.ts\<close>, which could be deleted, is still there.
\<close>

theorem first_error_ends_cleanup_counterexample:
  "listing (hlsDir (snd (stop_request
     (initial_world \<lparr>listing = [''segment000.ts'', ''segment001.ts''],
                     unreadable = False, undeletable = [''segment000.ts'']\<rparr>))))
   = [''segment000.ts'', ''segment001.ts'']"
  by (simp add: stop_request_def initial_world_def initial_state_def
      stopRTSPStream_def Let_def cleanup_def unlinkSync_def is_hls_file_def endsWith_def)

subsection \<open>Stop twice\<close>

text \<open>
  C6, as the code has it. Both of two stop requests in a row are answered with the
  acknowledgment. After the first, \<open>isRunning\<close> is false and the handle, the source address
  and the start time are null; the second changes neither \<open>streamState\<close>, nor the
  directory, nor any child. When the directory can be listed and no deletion throws, the
  names left are those that end neither in \<open>.m3u8\<close> nor in \<open>.ts\<close>; the directory is empty
  if it held no other name.
\<close>

theorem stop_twice:
  "distinct (listing (hlsDir w)) \<Longrightarrow>
   (let w1 = snd (stop_request w); w2 = snd (stop_request w1) in
      fst (stop_request w) = Reply 200 ''RTSP stream stopped'' \<and>
      fst (stop_request w1) = Reply 200 ''RTSP stream stopped'' \<and>
      streamState w1 =
        (streamState w)\<lparr>isRunning := False, rtspUrl := None, startTime := None,
                        ffmpegProcess := None\<rparr> \<and>
      streamState w2 = streamState w1 \<and>
      hlsDir w2 = hlsDir w1 \<and>
      children w2 = children w1 \<and>
      (\<not> unreadable (hlsDir w) \<and> (\<forall>f \<in> set (listing (hlsDir w)). \<not> blocked (hlsDir w) f) \<longrightarrow>
         listing (hlsDir w1) = filter (\<lambda>f. \<not> is_hls_file f) (listing (hlsDir w))) \<and>
      (\<not> unreadable (hlsDir w) \<and>
       (\<forall>f \<in> set (listing (hlsDir w)). is_hls_file f \<and> f \<notin> set (undeletable (hlsDir w))) \<longrightarrow>
         listing (hlsDir w1) = [] \<and> listing (hlsDir w2) = []))"
proof -
  assume dist: "distinct (listing (hlsDir w))"
  define w1 where "w1 = stopRTSPStream w"
  define w2 where "w2 = stopRTSPStream w1"
  have s1: "streamState w1 =
        (streamState w)\<lparr>isRunning := False, rtspUrl := None, startTime := None,
                        ffmpegProcess := None\<rparr>"
    by (simp add: w1_def streamState_stop)
  have s2: "streamState w2 = streamState w1"
    by (simp add: w2_def w1_def streamState_stop)
  have d2: "hlsDir w2 = hlsDir w1"
    by (simp add: w2_def w1_def hlsDir_stop cleanup_idem [OF dist])
  have c2: "children w2 = children w1"
    by (simp add: w2_def children_stop s1)
  have l1: "listing (hlsDir w1) = filter (\<lambda>f. \<not> is_hls_file f) (listing (hlsDir w))"
    if "\<not> unreadable (hlsDir w) \<and> (\<forall>f \<in> set (listing (hlsDir w)). \<not> blocked (hlsDir w) f)"
    using that cleanup_no_block [OF dist] by (simp add: w1_def hlsDir_stop)
  have e1: "listing (hlsDir w1) = [] \<and> listing (hlsDir w2) = []"
    if a: "\<not> unreadable (hlsDir w) \<and>
       (\<forall>f \<in> set (listing (hlsDir w)). is_hls_file f \<and> f \<notin> set (undeletable (hlsDir w)))"
  proof -
    have "\<not> unreadable (hlsDir w) \<and> (\<forall>f \<in> set (listing (hlsDir w)). \<not> blocked (hlsDir w) f)"
      using a by (simp add: blocked_def)
    then have "listing (hlsDir w1) = filter (\<lambda>f. \<not> is_hls_file f) (listing (hlsDir w))"
      by (rule l1)
    moreover have "filter (\<lambda>f. \<not> is_hls_file f) (listing (hlsDir w)) = []"
      using a by (simp add: filter_empty_conv)
    ultimately show ?thesis using d2 by simp
  qed
  show ?thesis
    using s1 s2 d2 c2 l1 e1
    by (simp add: Let_def stop_request_def w1_def [symmetric] w2_def [symmetric])
qed

theorem stop_twice_witness:
  "distinct [''stream.m3u8'', ''segment000.ts''] \<and>
   snd (stop_request (snd (stop_request
     (snd (startRTSPStream ''rtsp://host/stream'' 0
        (capable_world\<lparr>hlsDir := \<lparr>listing = [''stream.m3u8'', ''segment000.ts''],
                                  unreadable = False, undeletable = []\<rparr>\<rparr>))))))
   = snd (stop_request
     (snd (startRTSPStream ''rtsp://host/stream'' 0
        (capable_world\<lparr>hlsDir := \<lparr>listing = [''stream.m3u8'', ''segment000.ts''],
                                  unreadable = False, undeletable = []\<rparr>\<rparr>)))) \<and>
   listing (hlsDir (snd (stop_request
     (snd (startRTSPStream ''rtsp://host/stream'' 0
        (capable_world\<lparr>hlsDir := \<lparr>listing = [''stream.m3u8'', ''segment000.ts''],
                                  unreadable = False, undeletable = []\<rparr>\<rparr>)))))) = [] \<and>
   \<not> isRunning (streamState (snd (stop_request
     (snd (startRTSPStream ''rtsp://host/stream'' 0
        (capable_world\<lparr>hlsDir := \<lparr>listing = [''stream.m3u8'', ''segment000.ts''],
                                  unreadable = False, undeletable = []\<rparr>\<rparr>))))))"
proof -
  let ?w = "snd (startRTSPStream ''rtsp://host/stream'' 0
        (capable_world\<lparr>hlsDir := \<lparr>listing = [''stream.m3u8'', ''segment000.ts''],
                                  unreadable = False, undeletable = []\<rparr>\<rparr>))"
  have d: "distinct (listing (hlsDir ?w))"
    by (simp add: capable_world_def initial_world_def initial_state_def startRTSPStream_def
        Let_def)
  have "fst (stop_request ?w) = Reply 200 ''RTSP stream stopped''"
    using stop_twice [OF d] by (simp add: Let_def)
  then show ?thesis
    by (simp add: stop_request_def capable_world_def initial_world_def initial_state_def
        startRTSPStream_def stopRTSPStream_def Let_def cleanup_def unlinkSync_def
        is_hls_file_def endsWith_def kill_def upd_child_def)
qed

text \<open>
  C6 as stated fails: a name that ends neither in \<open>.m3u8\<close> nor in \<open>.ts\<close> is kept, so after
  two stop requests the directory is not empty.
\<close>

theorem stop_twice_not_empty_counterexample:
  "listing (hlsDir (snd (stop_request (snd (stop_request
     (initial_world \<lparr>listing = [''notes.txt''], unreadable = False, undeletable = []\<rparr>))))))
   = [''notes.txt'']"
  by (simp add: stop_request_def initial_world_def initial_state_def
      stopRTSPStream_def Let_def cleanup_def unlinkSync_def is_hls_file_def endsWith_def)

end
